theory Spec2Isabelle
  imports Main "HOL-Library.AList"
begin

section \<open>autoname\_functions.py: names, markers and the naming oracle\<close>

text \<open>
  Python 2 strings are byte strings; they are modelled as \<^typ>\<open>string\<close> (a list of
  8-bit characters). Addresses are Python integers, modelled as \<^typ>\<open>int\<close>.
\<close>

definition startswith :: "string \<Rightarrow> string \<Rightarrow> bool" where
  "startswith s p = (take (length p) s = p)"

text \<open>
  \<^verbatim>\<open>AUTONAMED_RE = re.compile( r"^z.?_" )\<close>, used through \<^verbatim>\<open>AUTONAMED_RE.match(name)\<close>:
  the letter z, then optionally one character that is not a line feed (the dot without
  DOTALL), then an underscore, anchored at the start of the name. The optional character
  is tried first (greedy) and given up on failure, so the match succeeds when either
  reading succeeds.
\<close>

fun AUTONAMED_RE_match :: "string \<Rightarrow> bool" where
  "AUTONAMED_RE_match (z # c # u # rest) =
     (z = CHR ''z'' \<and> ((c \<noteq> CHR 0x0A \<and> u = CHR ''_'') \<or> c = CHR ''_''))"
| "AUTONAMED_RE_match [z, c] = (z = CHR ''z'' \<and> c = CHR ''_'')"
| "AUTONAMED_RE_match [z] = False"
| "AUTONAMED_RE_match [] = False"

text \<open>
  \<^verbatim>\<open>def stripExistingPrefix( name ): if AUTONAMED_RE.match(name): return name[2:] else: return name\<close>
\<close>

definition stripExistingPrefix :: "string \<Rightarrow> string" where
  "stripExistingPrefix name = (if AUTONAMED_RE_match name then drop 2 name else name)"

section \<open>sanitizeString\<close>

text \<open>
  The character classes of the three regular expressions of \<^verbatim>\<open>sanitizeString\<close>.
  \<^verbatim>\<open>[\+ -#0]\<close> is the plus sign, the range from space to \<^verbatim>\<open>#\<close> (space, \<^verbatim>\<open>!\<close>, the double
  quote, \<^verbatim>\<open>#\<close>) and the digit zero: the minus sign stands between two characters and
  makes a range, it is not a member. \<^verbatim>\<open>[\d\.]\<close> is a decimal digit or a dot.
\<close>

definition in_range :: "char \<Rightarrow> char \<Rightarrow> char \<Rightarrow> bool" where
  "in_range lo hi c = ((of_char lo :: nat) \<le> of_char c \<and> (of_char c :: nat) \<le> of_char hi)"

definition is_word_char :: "char \<Rightarrow> bool" where
  "is_word_char c = (in_range CHR ''a'' CHR ''z'' c \<or> in_range CHR ''A'' CHR ''Z'' c
                     \<or> in_range CHR ''0'' CHR ''9'' c \<or> c = CHR ''_'')"

definition is_flag_char :: "char \<Rightarrow> bool" where
  "is_flag_char c = (c = CHR ''+'' \<or> in_range CHR '' '' CHR ''#'' c \<or> c = CHR ''0'')"

definition is_width_char :: "char \<Rightarrow> bool" where
  "is_width_char c = (in_range CHR ''0'' CHR ''9'' c \<or> c = CHR ''.'')"

definition is_length_char :: "char \<Rightarrow> bool" where
  "is_length_char c = (c \<in> set ''lhLzjt'')"

definition is_conversion_char :: "char \<Rightarrow> bool" where
  "is_conversion_char c = (c \<in> set ''diufFeEgGxXoscpaAn'')"

text \<open>
  \<^verbatim>\<open>%[\+ -#0]*[\d\.]*[lhLzjt]{0,2}[diufFeEgGxXoscpaAn]\<close> matched right after a percent sign:
  the result is the number of characters the directive takes after the percent sign.
  Each repetition is greedy. The length and conversion classes contain no flag or width
  character and are disjoint from each other, so giving back characters of a greedy
  repetition never turns a failure into a match: the greedy reading decides.
\<close>

definition format_directive_len :: "string \<Rightarrow> nat option" where
  "format_directive_len cs =
     (let flags = takeWhile is_flag_char cs;
          r1 = dropWhile is_flag_char cs;
          width = takeWhile is_width_char r1;
          r2 = dropWhile is_width_char r1;
          lens = take 2 (takeWhile is_length_char r2);
          r3 = drop (length lens) r2
      in case r3 of
           [] \<Rightarrow> None
         | c # _ \<Rightarrow> if is_conversion_char c
                    then Some (length flags + length width + length lens + 1)
                    else None)"

text \<open>
  \<^verbatim>\<open>re.sub(pattern, '_', ret)\<close> scans from the left; where the pattern matches, the
  match is replaced by one underscore and the scan goes on after it, otherwise the
  character is copied. \<open>sub_format_directives\<close> is this for the format directive,
  \<open>sub_runs P\<close> for a pattern \<^verbatim>\<open>[class]+\<close> whose class is \<open>P\<close>: a maximal run.
\<close>

function sub_format_directives :: "string \<Rightarrow> string" where
  "sub_format_directives [] = []"
| "sub_format_directives (c # cs) =
     (case (if c = CHR ''%'' then format_directive_len cs else None) of
        Some n \<Rightarrow> CHR ''_'' # sub_format_directives (drop n cs)
      | None \<Rightarrow> c # sub_format_directives cs)"
  by pat_completeness auto
termination
  by (relation "measure length") auto

function sub_runs :: "(char \<Rightarrow> bool) \<Rightarrow> string \<Rightarrow> string" where
  "sub_runs P [] = []"
| "sub_runs P (c # cs) =
     (if P c then CHR ''_'' # sub_runs P (dropWhile P cs) else c # sub_runs P cs)"
  by pat_completeness auto
termination
  by (relation "measure (\<lambda>(P, s). length s)") (auto simp: length_dropWhile_le less_Suc_eq_le)

text \<open>\<^verbatim>\<open>ret.strip('_')\<close>: the characters of the class are removed at both ends.\<close>

definition strip_chars :: "(char \<Rightarrow> bool) \<Rightarrow> string \<Rightarrow> string" where
  "strip_chars P s = rev (dropWhile P (rev (dropWhile P s)))"

text \<open>
  \<^verbatim>\<open>def sanitizeString(s)\<close>: the directive substitution, then
  \<^verbatim>\<open>re.sub( r'[^a-zA-Z0-9_]+', '_', ret )\<close>, then \<^verbatim>\<open>re.sub( r'_+', '_', ret )\<close>, then the strip.
\<close>

definition sanitizeString :: "string \<Rightarrow> string" where
  "sanitizeString s =
     (let ret = s;
          ret = sub_format_directives ret;
          ret = sub_runs (\<lambda>c. \<not> is_word_char c) ret;
          ret = sub_runs (\<lambda>c. c = CHR ''_'') ret
      in strip_chars (\<lambda>c. c = CHR ''_'') ret)"


text \<open>
  Predicates for stating what an identifier looks like: no two underscores in a row,
  and \<^verbatim>\<open>str.endswith\<close> read through the reversed strings.
\<close>

fun no_double_underscore :: "string \<Rightarrow> bool" where
  "no_double_underscore (a # b # cs) = (\<not> (a = CHR ''_'' \<and> b = CHR ''_'') \<and> no_double_underscore (b # cs))"
| "no_double_underscore [a] = True"
| "no_double_underscore [] = True"

definition endswith :: "string \<Rightarrow> string \<Rightarrow> bool" where
  "endswith s p = startswith (rev s) (rev p)"


section \<open>Properties of the marker stripping\<close>

lemma stripExistingPrefix_two_char_marker:
  "stripExistingPrefix (CHR ''z'' # CHR ''_'' # rest) = rest"
  by (cases rest) (simp_all add: stripExistingPrefix_def)

lemma stripExistingPrefix_no_match:
  "\<not> AUTONAMED_RE_match name \<Longrightarrow> stripExistingPrefix name = name"
  by (simp add: stripExistingPrefix_def)

text \<open>
  Claim C4. A name that matches the marker pattern with its optional character present
  (three characters: z, one more character, underscore) loses only its first two
  characters, because the slice is fixed at 2: the name \<open>zx_foo\<close> becomes \<open>_foo\<close>, which
  still begins with the underscore of the marker, and \<open>z_z_foo\<close> becomes \<open>z_foo\<close>, which
  still begins with a marker.
\<close>

theorem stripExistingPrefix_leaves_underscore:
  "AUTONAMED_RE_match ''zx_foo'' \<and> stripExistingPrefix ''zx_foo'' = ''_foo''
   \<and> AUTONAMED_RE_match ''z_z_foo'' \<and> stripExistingPrefix ''z_z_foo'' = ''z_foo''"
  by (simp add: stripExistingPrefix_def)

section \<open>Properties of sanitizeString\<close>

lemma is_word_char_underscore: "is_word_char CHR ''_''"
  by (simp add: is_word_char_def)

lemma percent_not_word_char: "is_word_char c \<Longrightarrow> c \<noteq> CHR ''%''"
  by (auto simp: is_word_char_def in_range_def)

lemma sub_runs_list_all:
  "Q CHR ''_'' \<Longrightarrow> (\<And>c. \<not> P c \<Longrightarrow> c \<in> set s \<Longrightarrow> Q c) \<Longrightarrow> list_all Q (sub_runs P s)"
proof (induction P s rule: sub_runs.induct)
  case (1 P)
  then show ?case by simp
next
  case (2 P c cs)
  show ?case
  proof (cases "P c")
    case True
    have "list_all Q (sub_runs P (dropWhile P cs))"
      using 2(1)[OF True 2(3)] 2(4) set_dropWhileD by fastforce
    with True 2(3) show ?thesis by simp
  next
    case False
    have "list_all Q (sub_runs P cs)"
      using 2(2)[OF False 2(3)] 2(4) by simp
    with False 2(4) show ?thesis by simp
  qed
qed

lemma sub_runs_id: "list_all (\<lambda>c. \<not> P c) s \<Longrightarrow> sub_runs P s = s"
  by (induction s) simp_all

lemma sub_runs_hd: "sub_runs P s = a # t \<Longrightarrow> P CHR ''_'' \<Longrightarrow> a = CHR ''_'' \<Longrightarrow> t = sub_runs P (dropWhile P (tl s)) \<and> s \<noteq> []"
  by (cases s) (auto split: if_splits)

lemma sub_underscores_no_double:
  "no_double_underscore (sub_runs (\<lambda>c. c = CHR ''_'') s)"
proof (induction "\<lambda>c. c = CHR ''_''" s rule: sub_runs.induct)
  case 1
  then show ?case by simp
next
  case (2 c cs)
  show ?case
  proof (cases "c = CHR ''_''")
    case True
    let ?r = "dropWhile (\<lambda>c. c = CHR ''_'') cs"
    have ih: "no_double_underscore (sub_runs (\<lambda>c. c = CHR ''_'') ?r)"
      using 2(1)[OF True] .
    have hd: "?r = [] \<or> hd ?r \<noteq> CHR ''_''"
      using hd_dropWhile[of "\<lambda>c. c = CHR ''_''" cs] by blast
    show ?thesis
    proof (cases ?r)
      case Nil
      from True have "sub_runs (\<lambda>c. c = CHR ''_'') (c # cs) = CHR ''_'' # sub_runs (\<lambda>c. c = CHR ''_'') ?r"
        by simp
      then show ?thesis unfolding Nil by simp
    next
      case (Cons d ds)
      with hd have "d \<noteq> CHR ''_''" by simp
      with True Cons ih show ?thesis by simp
    qed
  next
    case False
    have ih: "no_double_underscore (sub_runs (\<lambda>c. c = CHR ''_'') cs)"
      using 2(2)[OF False] .
    show ?thesis
    proof (cases "sub_runs (\<lambda>c. c = CHR ''_'') cs")
      case Nil
      with False show ?thesis by simp
    next
      case (Cons d ds)
      with False ih show ?thesis by simp
    qed
  qed
qed

lemma no_double_id: "no_double_underscore s \<Longrightarrow> sub_runs (\<lambda>c. c = CHR ''_'') s = s"
proof (induction s rule: no_double_underscore.induct)
  case (1 a b cs)
  then show ?case by (cases "a = CHR ''_''") auto
next
  case (2 a)
  then show ?case by simp
next
  case 3
  then show ?case by simp
qed

lemma no_double_tl: "no_double_underscore (a # s) \<Longrightarrow> no_double_underscore s"
  by (cases s) simp_all

lemma no_double_suffix: "no_double_underscore (a @ s) \<Longrightarrow> no_double_underscore s"
  by (induction a) (auto dest: no_double_tl)

lemma no_double_prefix: "no_double_underscore (s @ b) \<Longrightarrow> no_double_underscore s"
proof (induction s rule: no_double_underscore.induct)
  case (1 a b cs)
  then show ?case by simp
qed simp_all

lemma strip_chars_decomp:
  "dropWhile P s = strip_chars P s @ rev (takeWhile P (rev (dropWhile P s)))"
proof -
  let ?m = "dropWhile P s"
  have "strip_chars P s @ rev (takeWhile P (rev ?m))
        = rev (takeWhile P (rev ?m) @ dropWhile P (rev ?m))"
    by (simp only: rev_append strip_chars_def)
  also have "\<dots> = rev (rev ?m)" by (simp only: takeWhile_dropWhile_id)
  also have "\<dots> = ?m" by simp
  finally show ?thesis by simp
qed

lemma strip_chars_infix: "\<exists>a b. s = a @ strip_chars P s @ b"
proof -
  have "s = takeWhile P s @ dropWhile P s" by simp
  then have "s = takeWhile P s @ strip_chars P s @ rev (takeWhile P (rev (dropWhile P s)))"
    using strip_chars_decomp[of P s] by simp
  then show ?thesis by blast
qed

lemma strip_chars_no_double: "no_double_underscore s \<Longrightarrow> no_double_underscore (strip_chars P s)"
  using strip_chars_infix[of s P] no_double_suffix no_double_prefix by metis

lemma strip_chars_list_all: "list_all Q s \<Longrightarrow> list_all Q (strip_chars P s)"
proof -
  assume a: "list_all Q s"
  obtain x y where "s = x @ strip_chars P s @ y" using strip_chars_infix by blast
  then have "list_all Q (x @ strip_chars P s @ y)" using a by simp
  then show ?thesis by simp
qed

lemma strip_chars_last: "strip_chars P s \<noteq> [] \<Longrightarrow> \<not> P (last (strip_chars P s))"
  unfolding strip_chars_def using hd_dropWhile[of P "rev (dropWhile P s)"]
  by (simp add: last_rev)

lemma strip_chars_hd: "strip_chars P s \<noteq> [] \<Longrightarrow> \<not> P (hd (strip_chars P s))"
proof -
  assume ne: "strip_chars P s \<noteq> []"
  let ?m = "dropWhile P s"
  have 2: "?m = strip_chars P s @ rev (takeWhile P (rev ?m))"
    by (rule strip_chars_decomp)
  have m: "?m \<noteq> []"
  proof
    assume e: "?m = []"
    have "strip_chars P s @ rev (takeWhile P (rev ?m)) = []"
      using 2 unfolding e by simp
    with ne show False by simp
  qed
  from 2 ne have "hd ?m = hd (strip_chars P s)" by (metis hd_append2)
  with hd_dropWhile[OF m] show ?thesis by simp
qed

lemma strip_chars_id: "(s \<noteq> [] \<Longrightarrow> \<not> P (hd s) \<and> \<not> P (last s)) \<Longrightarrow> strip_chars P s = s"
proof (cases s)
  case Nil
  then show ?thesis by (simp add: strip_chars_def)
next
  case (Cons a t)
  assume "s \<noteq> [] \<Longrightarrow> \<not> P (hd s) \<and> \<not> P (last s)"
  with Cons have h: "\<not> P a" and l: "\<not> P (last s)" by auto
  from h Cons have 1: "dropWhile P s = s" by simp
  have "rev s \<noteq> []" using Cons by simp
  then have "hd (rev s) = last s" by (simp add: hd_rev)
  with l Cons have "dropWhile P (rev s) = rev s" by (cases "rev s") auto
  with 1 show ?thesis by (simp add: strip_chars_def)
qed

lemma sub_format_id: "list_all (\<lambda>c. c \<noteq> CHR ''%'') s \<Longrightarrow> sub_format_directives s = s"
  by (induction s) simp_all

lemma sanitize_word: "list_all is_word_char (sanitizeString s)"
proof -
  let ?a = "sub_format_directives s"
  let ?b = "sub_runs (\<lambda>c. \<not> is_word_char c) ?a"
  let ?c = "sub_runs (\<lambda>c. c = CHR ''_'') ?b"
  have b: "list_all is_word_char ?b"
    using sub_runs_list_all[of is_word_char "\<lambda>c. \<not> is_word_char c" ?a]
    by (simp add: is_word_char_underscore)
  then have "\<And>c. c \<in> set ?b \<Longrightarrow> is_word_char c"
    by (simp add: list_all_iff)
  then have c: "list_all is_word_char ?c"
    using sub_runs_list_all[of is_word_char "\<lambda>c. c = CHR ''_''" ?b]
    by (simp add: is_word_char_underscore)
  have "list_all is_word_char (strip_chars (\<lambda>c. c = CHR ''_'') ?c)"
    using c by (rule strip_chars_list_all)
  then show ?thesis by (simp add: sanitizeString_def)
qed

lemma sanitize_no_double: "no_double_underscore (sanitizeString s)"
  unfolding sanitizeString_def Let_def
  by (rule strip_chars_no_double) (rule sub_underscores_no_double)

lemma sanitize_no_leading: "\<not> startswith (sanitizeString s) ''_''"
proof
  assume a: "startswith (sanitizeString s) ''_''"
  let ?t = "sub_runs (\<lambda>c. c = CHR ''_'') (sub_runs (\<lambda>c. \<not> is_word_char c) (sub_format_directives s))"
  have eq: "sanitizeString s = strip_chars (\<lambda>c. c = CHR ''_'') ?t"
    by (simp add: sanitizeString_def)
  from a have ne: "sanitizeString s \<noteq> []" and h: "hd (sanitizeString s) = CHR ''_''"
    by (cases "sanitizeString s"; simp add: startswith_def)+
  from strip_chars_hd[of "\<lambda>c. c = CHR ''_''" ?t] ne h eq show False by simp
qed

lemma sanitize_no_trailing: "\<not> endswith (sanitizeString s) ''_''"
proof
  assume a: "endswith (sanitizeString s) ''_''"
  let ?t = "sub_runs (\<lambda>c. c = CHR ''_'') (sub_runs (\<lambda>c. \<not> is_word_char c) (sub_format_directives s))"
  have eq: "sanitizeString s = strip_chars (\<lambda>c. c = CHR ''_'') ?t"
    by (simp add: sanitizeString_def)
  from a have ne: "rev (sanitizeString s) \<noteq> []" and h: "hd (rev (sanitizeString s)) = CHR ''_''"
    by (cases "rev (sanitizeString s)"; simp add: endswith_def startswith_def)+
  from ne have ne': "sanitizeString s \<noteq> []" by simp
  with h have "last (sanitizeString s) = CHR ''_''" by (simp add: hd_rev)
  with strip_chars_last[of "\<lambda>c. c = CHR ''_''" ?t] ne' eq show False by simp
qed

lemma sanitize_fixpoint:
  assumes w: "list_all is_word_char r" and d: "no_double_underscore r"
    and l: "\<not> startswith r ''_''" and t: "\<not> endswith r ''_''"
  shows "sanitizeString r = r"
proof -
  from w have "list_all (\<lambda>c. c \<noteq> CHR ''%'') r"
    by (auto simp: list_all_iff dest: percent_not_word_char)
  then have 1: "sub_format_directives r = r" by (rule sub_format_id)
  from w have 2: "sub_runs (\<lambda>c. \<not> is_word_char c) r = r"
    by (intro sub_runs_id) simp
  from d have 3: "sub_runs (\<lambda>c. c = CHR ''_'') r = r" by (rule no_double_id)
  have 4: "strip_chars (\<lambda>c. c = CHR ''_'') r = r"
  proof (rule strip_chars_id)
    assume ne: "r \<noteq> []"
    from l ne have "hd r \<noteq> CHR ''_''" by (cases r) (auto simp: startswith_def)
    moreover have "last r \<noteq> CHR ''_''"
    proof
      assume "last r = CHR ''_''"
      with ne have "hd (rev r) = CHR ''_''" by (simp add: hd_rev)
      with ne have "endswith r ''_''"
        by (cases "rev r") (simp_all add: endswith_def startswith_def)
      with t show False by simp
    qed
    ultimately show "\<not> hd r = CHR ''_'' \<and> \<not> last r = CHR ''_''" by simp
  qed
  show ?thesis by (simp add: sanitizeString_def 1 2 3 4)
qed

lemma sanitize_idem: "sanitizeString (sanitizeString s) = sanitizeString s"
  by (rule sanitize_fixpoint[OF sanitize_word sanitize_no_double sanitize_no_leading sanitize_no_trailing])

text \<open>
  Claim C9. For every string \<open>s\<close>, sanitizing twice is sanitizing once; the output
  consists of characters of \<^verbatim>\<open>[A-Za-z0-9_]\<close> only, has no two consecutive underscores
  and neither starts nor ends with an underscore; and the example of the specification,
  \<^verbatim>\<open>"Error: %d occurred!!"\<close>, becomes \<^verbatim>\<open>"Error_occurred"\<close>.
\<close>

theorem sanitizeString_idempotent_clean:
  "sanitizeString (sanitizeString s) = sanitizeString s
   \<and> list_all is_word_char (sanitizeString s)
   \<and> no_double_underscore (sanitizeString s)
   \<and> \<not> startswith (sanitizeString s) ''_''
   \<and> \<not> endswith (sanitizeString s) ''_''
   \<and> sanitizeString ''Error: %d occurred!!'' = ''Error_occurred''"
proof -
  have ex: "sanitizeString ''Error: %d occurred!!'' = ''Error_occurred''"
    by (simp add: sanitizeString_def strip_chars_def format_directive_len_def is_flag_char_def
        is_width_char_def is_length_char_def is_conversion_char_def is_word_char_def in_range_def)
  show ?thesis
    using sanitize_idem sanitize_word sanitize_no_double sanitize_no_leading
      sanitize_no_trailing ex by blast
qed

theorem sanitizeString_idempotent_clean_witness:
  "sanitizeString (sanitizeString ''%5.2f  a__b %s!'') = sanitizeString ''%5.2f  a__b %s!''
   \<and> list_all is_word_char (sanitizeString ''%5.2f  a__b %s!'')
   \<and> no_double_underscore (sanitizeString ''%5.2f  a__b %s!'')
   \<and> \<not> startswith (sanitizeString ''%5.2f  a__b %s!'') ''_''
   \<and> \<not> endswith (sanitizeString ''%5.2f  a__b %s!'') ''_''
   \<and> sanitizeString ''Error: %d occurred!!'' = ''Error_occurred''"
  by (rule sanitizeString_idempotent_clean)

end
